theory Spec2Isabelle
  imports Complex_Main "HOL-Library.Sublist"
begin

section \<open>Exceptions\<close>

text \<open>
  The Python exceptions that the modelled code raises, catches or lets through.
  \<open>OtherException n\<close> stands for any other subclass of \<open>Exception\<close> with class name \<open>n\<close>;
  \<open>KeyboardInterrupt\<close> and \<open>SystemExit\<close> derive from \<open>BaseException\<close> only, so an
  \<open>except Exception\<close> clause does not catch them.
\<close>

datatype exn =
    ValueError string
  | Full
  | TimeoutError
  | OSError string
  | EOFError
  | AttributeError string
  | OverflowError
  | OtherException string
  | KeyboardInterrupt
  | SystemExit

section \<open>The queue behind \<open>CustomQueue\<close>\<close>

text \<open>
  \<open>class CustomQueue(Queue)\<close> inherits its state from \<open>queue.Queue\<close>: the bound
  \<open>self.maxsize\<close>, the deque \<open>self.queue\<close> (here \<open>items\<close>) and the counter
  \<open>self.unfinished_tasks\<close>. \<open>_qsize()\<close> is \<open>len(self.queue)\<close>.
\<close>

record 'a queue =
  maxsize :: int
  items :: "'a list"
  unfinished_tasks :: nat

definition qsize :: "'a queue \<Rightarrow> int" where
  "qsize q = int (length (items q))"

text \<open>
  \<open>full_wait\<close> runs under the lock of the condition \<open>self.not_full\<close> and blocks in
  \<open>self.not_full.wait\<close>, during which other threads run. Time is read from
  \<open>time.monotonic()\<close>; it is modelled as a real number carried in the world state, and
  advanced only while the caller is blocked (acquiring the lock, or waiting).

  What the other threads do is the schedule: \<open>acquire\<close> is what happens while the
  caller acquires the lock, and \<open>wakes\<close> lists, for each completed call of \<open>wait\<close>,
  how long the caller slept and what the other threads did to the deque meanwhile.
  When the list is used up no other thread touches the queue any more: an untimed
  \<open>wait()\<close> then never returns (the result \<open>None\<close>), and a timed \<open>wait(remaining)\<close>
  returns after \<open>remaining\<close> with the deque as it was.

  \<open>timeout_max\<close> is \<open>threading.TIMEOUT_MAX\<close>, the largest timeout the lock of the
  platform accepts: \<open>Condition.wait(timeout)\<close> with a larger \<open>timeout\<close> raises
  \<open>OverflowError\<close> at once, without sleeping.

  \<open>cv_log\<close> records the calls on the two conditions made by the caller itself.
\<close>

datatype cv_event = WaitNotFull "real option" | NotifyNotEmpty

record 'a world =
  queue :: "'a queue"
  clock :: real
  cv_log :: "cv_event list"

record 'a wake =
  slept :: real
  effect :: "'a list \<Rightarrow> 'a list"

record 'a sched =
  acquire :: "'a wake"
  wakes :: "'a wake list"
  timeout_max :: real

definition interfere :: "'a wake \<Rightarrow> 'a world \<Rightarrow> 'a world" where
  "interfere w s =
     s\<lparr>queue := (queue s)\<lparr>items := effect w (items (queue s))\<rparr>,
       clock := clock s + slept w\<rparr>"

definition cv_wait :: "real option \<Rightarrow> 'a wake \<Rightarrow> 'a world \<Rightarrow> 'a world" where
  "cv_wait t w s = interfere w (s\<lparr>cv_log := cv_log s @ [WaitNotFull t]\<rparr>)"

text \<open>
  Lines 154--155: \<^verbatim>\<open>while self._qsize() >= maxsize: self.not_full.wait()\<close>.
\<close>

fun wait_untimed :: "int \<Rightarrow> 'a wake list \<Rightarrow> 'a world \<Rightarrow> 'a world option" where
  "wait_untimed m ws s =
     (if qsize (queue s) \<ge> m then
        (case ws of
           [] \<Rightarrow> None
         | w # ws' \<Rightarrow> wait_untimed m ws' (cv_wait None w s))
      else Some s)"

text \<open>
  Lines 160--164:
  \<^verbatim>\<open>
  while self._qsize() >= maxsize:
      remaining = endtime - time.monotonic()
      if remaining <= 0.0:
          raise Full
      self.not_full.wait(remaining)
  \<close>
  The call \<open>self.not_full.wait(remaining)\<close> raises \<open>OverflowError\<close> when \<open>remaining\<close> is
  larger than \<open>threading.TIMEOUT_MAX\<close> (here \<open>tmax\<close>); line 164 has no handler.
\<close>

function wait_timed ::
  "real \<Rightarrow> int \<Rightarrow> real \<Rightarrow> 'a wake list \<Rightarrow> 'a world \<Rightarrow> (exn + unit) \<times> 'a world" where
  "wait_timed tmax m endtime ws s =
     (if qsize (queue s) \<ge> m then
        (let remaining = endtime - clock s in
         if remaining \<le> 0 then (Inl Full, s)
         else if remaining > tmax then
           (Inl OverflowError, s\<lparr>cv_log := cv_log s @ [WaitNotFull (Some remaining)]\<rparr>)
         else (case ws of
                 [] \<Rightarrow> wait_timed tmax m endtime []
                        (cv_wait (Some remaining) \<lparr>slept = remaining, effect = (\<lambda>xs. xs)\<rparr> s)
               | w # ws' \<Rightarrow> wait_timed tmax m endtime ws' (cv_wait (Some remaining) w s)))
      else (Inr (), s))"
  by pat_completeness auto
termination
  by (relation "measure (\<lambda>(tmax, m, e, ws, s). 2 * length ws + (if clock s < e then 1 else 0))")
     (auto simp: cv_wait_def interfere_def)

declare wait_untimed.simps [simp del]
declare wait_timed.simps [simp del]

text \<open>The message of line 157: \<^verbatim>\<open>"'timeout' must be a non-negative number"\<close>.\<close>

definition timeout_msg :: string where
  "timeout_msg = CHR 0x27 # ''timeout'' @ CHR 0x27 # '' must be a non-negative number''"

text \<open>
  \<open>CustomQueue.full_wait(self, maxsize=0, timeout=None)\<close>, lines 148--167. The result is
  \<open>None\<close> when the call never returns, \<open>Some (Inl e, _)\<close> when it raises \<open>e\<close>, and
  \<open>Some (Inr d, _)\<close> when it returns \<open>d = endtime - starttime\<close>. An exception leaves the
  \<open>with\<close> block before \<open>self.not_empty.notify()\<close>.
\<close>

definition full_wait ::
  "int \<Rightarrow> real option \<Rightarrow> 'a sched \<Rightarrow> 'a world \<Rightarrow> ((exn + real) \<times> 'a world) option" where
  "full_wait m timeout sch s =
     (let starttime = clock s;
          s1 = interfere (acquire sch) s;
          locked =
            (if m > 0 then
               (case timeout of
                  None \<Rightarrow> map_option (\<lambda>s2. (Inr (), s2)) (wait_untimed m (wakes sch) s1)
                | Some t \<Rightarrow>
                    if t < 0 then Some (Inl (ValueError timeout_msg), s1)
                    else Some (wait_timed (timeout_max sch) m (clock s1 + t) (wakes sch) s1))
             else Some (Inr (), s1))
      in case locked of
           None \<Rightarrow> None
         | Some (Inl e, s2) \<Rightarrow> Some (Inl e, s2)
         | Some (Inr u, s2) \<Rightarrow>
             (let s3 = s2\<lparr>cv_log := cv_log s2 @ [NotifyNotEmpty]\<rparr>;
                  endtime = clock s3
              in Some (Inr (endtime - starttime), s3)))"


text \<open>
  \<open>put\<close> and \<open>get\<close> are inherited from \<open>queue.Queue\<close>, called with their defaults
  (\<open>block=True, timeout=None\<close>) by one thread at a time. \<open>put\<close> waits only when
  \<open>self.maxsize > 0\<close> and the queue holds \<open>maxsize\<close> items; \<open>get\<close> waits while the queue is
  empty. With no other thread running, a call that waits never returns: the result
  \<open>None\<close>.
\<close>

datatype 'a qop = Enqueue 'a | Dequeue

definition put :: "'a \<Rightarrow> 'a queue \<Rightarrow> 'a queue option" where
  "put x q =
     (if maxsize q > 0 \<and> qsize q \<ge> maxsize q then None
      else Some (q\<lparr>items := items q @ [x], unfinished_tasks := unfinished_tasks q + 1\<rparr>))"

definition get :: "'a queue \<Rightarrow> ('a \<times> 'a queue) option" where
  "get q = (case items q of [] \<Rightarrow> None | x # xs \<Rightarrow> Some (x, q\<lparr>items := xs\<rparr>))"

text \<open>
  \<open>Queue.__init__(self, maxsize=0)\<close>, and line 170: \<^verbatim>\<open>_captcha_queue = CustomQueue()\<close>.
\<close>

definition CustomQueue :: "int \<Rightarrow> 'a queue" where
  "CustomQueue m = \<lparr>maxsize = m, items = [], unfinished_tasks = 0\<rparr>"

definition captcha_queue :: "'a queue" where
  "captcha_queue = CustomQueue 0"

text \<open>A finite sequence of enqueue and dequeue operations, run in order.\<close>

fun run_ops :: "'a qop list \<Rightarrow> 'a queue \<Rightarrow> 'a queue option" where
  "run_ops [] q = Some q"
| "run_ops (Enqueue x # ops) q = (case put x q of None \<Rightarrow> None | Some q' \<Rightarrow> run_ops ops q')"
| "run_ops (Dequeue # ops) q = (case get q of None \<Rightarrow> None | Some (x, q') \<Rightarrow> run_ops ops q')"

fun is_enqueue :: "'a qop \<Rightarrow> bool" where
  "is_enqueue (Enqueue x) = True"
| "is_enqueue Dequeue = False"

definition enqueues :: "'a qop list \<Rightarrow> nat" where
  "enqueues ops = length (filter is_enqueue ops)"

definition dequeues :: "'a qop list \<Rightarrow> nat" where
  "dequeues ops = length (filter (\<lambda>op. \<not> is_enqueue op) ops)"

section \<open>Values, actions and the environment\<close>

text \<open>\<open>e.__class__.__name__\<close>, and which \<open>except\<close> clauses catch an exception.\<close>

fun class_name :: "exn \<Rightarrow> string" where
  "class_name (ValueError m) = ''ValueError''"
| "class_name Full = ''Full''"
| "class_name TimeoutError = ''TimeoutError''"
| "class_name (OSError m) = ''OSError''"
| "class_name EOFError = ''EOFError''"
| "class_name (AttributeError m) = ''AttributeError''"
| "class_name OverflowError = ''OverflowError''"
| "class_name (OtherException n) = n"
| "class_name KeyboardInterrupt = ''KeyboardInterrupt''"
| "class_name SystemExit = ''SystemExit''"

fun is_Exception :: "exn \<Rightarrow> bool" where
  "is_Exception KeyboardInterrupt = False"
| "is_Exception SystemExit = False"
| "is_Exception e = True"

fun is_OSError :: "exn \<Rightarrow> bool" where
  "is_OSError (OSError m) = True"
| "is_OSError e = False"

text \<open>
  The Python values that the modelled code looks at: it tests them for truth
  (\<open>if conf.CACHE_CELLS\<close>, \<open>while not DB_PROC.queue.empty()\<close>), asks whether one is a
  string (\<open>isinstance(address, str)\<close>) and formats one into a message.
\<close>

datatype val = VNone | VBool bool | VInt int | VStr string | VTuple "val list"

fun truthy :: "val \<Rightarrow> bool" where
  "truthy VNone = False"
| "truthy (VBool b) = b"
| "truthy (VInt n) = (n \<noteq> 0)"
| "truthy (VStr s) = (s \<noteq> [])"
| "truthy (VTuple vs) = (vs \<noteq> [])"

fun is_str :: "val \<Rightarrow> bool" where
  "is_str (VStr s) = True"
| "is_str v = False"

text \<open>\<open>'{}'.format(address)\<close>, used by the program only where \<open>address\<close> is a string.\<close>

fun format_str :: "val \<Rightarrow> string" where
  "format_str (VStr s) = s"
| "format_str v = []"

text \<open>
  What \<open>LOOP.run_until_complete\<close> is given: \<open>asyncio.wait_for(gathered, 40)\<close> in
  \<open>cleanup\<close> (line 250), the launcher task in \<open>main\<close> (line 322).
\<close>

datatype awaitable = WaitFor nat | Launcher

datatype proxytype = AutoProxy | DictProxy

text \<open>
  Every call that \<open>cleanup\<close> and \<open>main\<close> make into their collaborators (the overseer,
  the event loop, the loggers, the pickling helpers, the database writer, the manager),
  and every \<open>print\<close>. The collaborators are not part of the modelled code: what a call
  does is left to the environment. \<open>configure_logger\<close> (lines 215--226), which only sets
  up logging, is one call as well.
\<close>

datatype action =
    SetRunning bool
  | Print string
  | PrintPending val
  | GetLogger string
  | ExitProgress
  | CreateTask string
  | AllTasks
  | Gather
  | RunUntilComplete awaitable
  | LogException string string
  | LogWarning string string
  | RefreshDict
  | DumpPickle string
  | FortCachePickle
  | ConfCacheCells
  | DbProcStop
  | SpawnsUpdate
  | QueueEmpty
  | QueueQsize
  | Sleep real
  | ManagerShutdown
  | SessionManagerClose
  | CloseSessions
  | LoopClose
  | ConfigureLogger "string option"
  | LogInfo string
  | SetLevel val
  | Register string
  | GetAddress
  | NewManager val val
  | ManagerStart
  | SetExceptionHandler
  | NewOverseer
  | OverseerStart bool
  | Launch bool bool
  | ActivateHashServer val
  | AddSignalHandler string
  | LauncherCancel

text \<open>
  The state: the flag \<open>overseer.running\<close>, the registry of \<open>AccountManager\<close> (type id to
  callable and proxy type), and the calls made so far, in order.
\<close>

record state =
  running :: bool
  registry :: "string \<rightharpoonup> string \<times> proxytype"
  trace :: "action list"

text \<open>
  The environment gives the outcome of the \<open>k\<close>-th occurrence (counted from \<open>0\<close>) of each
  call: \<open>Inl e\<close> when it raises \<open>e\<close>, \<open>Inr v\<close> when it returns \<open>v\<close>. A statement maps a
  state to its outcome and the state after it.
\<close>

type_synonym env = "action \<Rightarrow> nat \<Rightarrow> exn + val"
type_synonym 'a m = "state \<Rightarrow> (exn + 'a) \<times> state"

definition perform :: "env \<Rightarrow> action \<Rightarrow> val m" where
  "perform env a s = (env a (count_list (trace s) a), s\<lparr>trace := trace s @ [a]\<rparr>)"

text \<open>A sequence of statements: the first exception ends it.\<close>

fun block :: "val m list \<Rightarrow> val m" where
  "block [] s = (Inr VNone, s)"
| "block (c # cs) s = (case c s of (Inl e, s') \<Rightarrow> (Inl e, s') | (Inr v, s') \<Rightarrow> block cs s')"

section \<open>\<open>cleanup\<close>\<close>

text \<open>Line 240: \<^verbatim>\<open>overseer.running = False\<close>.\<close>

definition set_running :: "env \<Rightarrow> bool \<Rightarrow> val m" where
  "set_running env b s =
     (case perform env (SetRunning b) s of
        (Inl e, s1) \<Rightarrow> (Inl e, s1)
      | (Inr v, s1) \<Rightarrow> (Inr v, s1\<lparr>running := b\<rparr>))"

text \<open>
  Lines 249--255:
  \<^verbatim>\<open>
  try:
      LOOP.run_until_complete(asyncio.wait_for(gathered, 40))
  except TimeoutError as e:
      print('Coroutine completion timed out, moving on.')
  except Exception as e:
      log = get_logger('cleanup')
      log.exception('A wild {} appeared during exit!', e.__class__.__name__)
  \<close>
  \<open>TimeoutError\<close> is the class imported at line 21, which is the class \<open>asyncio.wait_for\<close>
  raises on the interpreters that still provide \<open>asyncio.Task.all_tasks\<close> (line 247).
\<close>

definition await_tasks :: "env \<Rightarrow> val m" where
  "await_tasks env s =
     (case perform env (RunUntilComplete (WaitFor 40)) s of
        (Inl e, s1) \<Rightarrow>
          if e = TimeoutError then
            perform env (Print ''Coroutine completion timed out, moving on.'') s1
          else if is_Exception e then
            block [perform env (GetLogger ''cleanup''),
                   perform env (LogException ''A wild {} appeared during exit!'' (class_name e))] s1
          else (Inl e, s1)
      | (Inr v, s1) \<Rightarrow> (Inr v, s1))"

text \<open>
  Lines 262--263: \<^verbatim>\<open>if conf.CACHE_CELLS: dump_pickle('cells', Worker.cell_ids)\<close>. The
  module sets no default for \<open>CACHE_CELLS\<close> (lines 36--76), so reading it is a call
  that may raise.
\<close>

definition dump_cells :: "env \<Rightarrow> val m" where
  "dump_cells env s =
     (case perform env ConfCacheCells s of
        (Inl e, s1) \<Rightarrow> (Inl e, s1)
      | (Inr v, s1) \<Rightarrow>
          if truthy v then perform env (DumpPickle ''cells'') s1 else (Inr VNone, s1))"

text \<open>
  Lines 267--270:
  \<^verbatim>\<open>
  try:
      SPAWNS.update()
  except Exception as e:
      log.warning('A wild {} appeared while updating spawns during exit!', e.__class__.__name__)
  \<close>
\<close>

definition update_spawns :: "env \<Rightarrow> val m" where
  "update_spawns env s =
     (case perform env SpawnsUpdate s of
        (Inl e, s1) \<Rightarrow>
          if is_Exception e then
            perform env (LogWarning ''A wild {} appeared while updating spawns during exit!''
                           (class_name e)) s1
          else (Inl e, s1)
      | (Inr v, s1) \<Rightarrow> (Inr v, s1))"

text \<open>
  Lines 271--276, the body of the loop and the loop:
  \<^verbatim>\<open>
  while not DB_PROC.queue.empty():
      pending = DB_PROC.queue.qsize()
      print('{} DB items pending     '.format(pending), end='\r')
      time.sleep(.5)
  \<close>
  The loop has no bound of its own: it ends when a call of \<open>empty()\<close> returns a true
  value, or when a call raises. \<open>None\<close> is the loop that never ends.
\<close>

definition drain_step :: "env \<Rightarrow> val m" where
  "drain_step env s =
     (case perform env QueueQsize s of
        (Inl e, s1) \<Rightarrow> (Inl e, s1)
      | (Inr pending, s1) \<Rightarrow>
          block [perform env (PrintPending pending), perform env (Sleep 0.5)] s1)"

partial_function (option) drain_queue :: "env \<Rightarrow> state \<Rightarrow> ((exn + val) \<times> state) option" where
  "drain_queue env s =
     (case perform env QueueEmpty s of
        (Inl e, s1) \<Rightarrow> Some (Inl e, s1)
      | (Inr v, s1) \<Rightarrow>
          if truthy v then Some (Inr VNone, s1)
          else (case drain_step env s1 of
                  (Inl e, s2) \<Rightarrow> Some (Inl e, s2)
                | (Inr u, s2) \<Rightarrow> drain_queue env s2))"

declare drain_queue.simps [code]

text \<open>
  The statements of the \<open>try\<close> block before the loop, lines 240--270, in three parts:
  lines 240--255, lines 257--263 and lines 265--270.
\<close>

definition finish_tasks :: "env \<Rightarrow> val m list" where
  "finish_tasks env =
     [set_running env False,
      perform env (Print ''Exiting, please wait until all tasks finish''),
      perform env (GetLogger ''cleanup''),
      perform env (Print ''Finishing tasks...''),
      perform env ExitProgress,
      perform env (CreateTask ''exit_progress''),
      perform env AllTasks,
      perform env Gather,
      await_tasks env]"

definition persist :: "env \<Rightarrow> val m list" where
  "persist env =
     [perform env RefreshDict,
      perform env (Print ''Dumping pickles...''),
      perform env (DumpPickle ''accounts''),
      perform env FortCachePickle,
      dump_cells env]"

definition stop_writer :: "env \<Rightarrow> val m list" where
  "stop_writer env =
     [perform env DbProcStop,
      perform env (Print ''Updating spawns pickle...''),
      update_spawns env]"

definition cleanup_try :: "env \<Rightarrow> val m" where
  "cleanup_try env = block (finish_tasks env @ persist env @ stop_writer env)"

text \<open>The whole \<open>try\<close> block, lines 240--276.\<close>

definition cleanup_body :: "env \<Rightarrow> state \<Rightarrow> ((exn + val) \<times> state) option" where
  "cleanup_body env s =
     (case cleanup_try env s of
        (Inl e, s1) \<Rightarrow> Some (Inl e, s1)
      | (Inr v, s1) \<Rightarrow> drain_queue env s1)"

text \<open>
  The \<open>finally\<close> block, lines 278--283:
  \<^verbatim>\<open>
  print('Closing pipes, sessions, and event loop...')
  manager.shutdown()
  SessionManager.close()
  close_sessions()
  LOOP.close()
  print('Done.')
  \<close>
\<close>

definition release_actions :: "action list" where
  "release_actions =
     [Print ''Closing pipes, sessions, and event loop...'',
      ManagerShutdown, SessionManagerClose, CloseSessions, LoopClose,
      Print ''Done.'']"

definition release :: "env \<Rightarrow> val m" where
  "release env = block (map (perform env) release_actions)"

text \<open>
  \<open>cleanup(overseer, manager)\<close>, lines 238--283: the \<open>finally\<close> block runs after the
  \<open>try\<close> block, however that ended; an exception of the \<open>finally\<close> block replaces the
  outcome of the \<open>try\<close> block, which is passed on otherwise.
\<close>

definition cleanup :: "env \<Rightarrow> state \<Rightarrow> ((exn + val) \<times> state) option" where
  "cleanup env s =
     (case cleanup_body env s of
        None \<Rightarrow> None
      | Some (r, s1) \<Rightarrow>
          (case release env s1 of
             (Inl e, s2) \<Rightarrow> Some (Inl e, s2)
           | (Inr v, s2) \<Rightarrow> Some (r, s2)))"

section \<open>\<open>main\<close>\<close>

text \<open>
  The settings \<open>main\<close> reads (each has a default, lines 36--76 and 120--124), the
  parsed command line, and \<open>os.path.join\<close> on a POSIX system for two relative parts.
\<close>

record conf =
  MAP_WORKERS :: bool
  DIRECTORY :: string
  AUTHKEY :: val
  HASH_KEY :: val

record args =
  status_bar :: bool
  log_level :: val
  bootstrap :: bool
  pickle :: bool

definition join :: "string \<Rightarrow> string \<Rightarrow> string" where
  "join d f = (if d = [] then f else if last d = CHR ''/'' then d @ f else d @ ''/'' @ f)"

text \<open>
  \<open>AccountManager.register(typeid, callable=..., proxytype=...)\<close> stores the entry in
  the registry of the class; \<open>proxytype=None\<close> stands for the automatic proxy. Lines
  297--301:
  \<^verbatim>\<open>
  AccountManager.register('captcha_queue', callable=get_captchas)
  AccountManager.register('extra_queue', callable=get_extras)
  if conf.MAP_WORKERS:
      AccountManager.register('worker_dict', callable=get_workers,
                              proxytype=DictProxy)
  \<close>
\<close>

definition register :: "string \<Rightarrow> string \<Rightarrow> proxytype \<Rightarrow> val m" where
  "register typeid callable pt s =
     (Inr VNone, s\<lparr>registry := (registry s)(typeid \<mapsto> (callable, pt)),
                   trace := trace s @ [Register typeid]\<rparr>)"

definition register_resources :: "conf \<Rightarrow> val m" where
  "register_resources c =
     block
       ([register ''captcha_queue'' ''get_captchas'' AutoProxy,
         register ''extra_queue'' ''get_extras'' AutoProxy]
        @ (if MAP_WORKERS c then [register ''worker_dict'' ''get_workers'' DictProxy] else []))"

text \<open>
  A lookup by a remote process. The server of \<open>multiprocessing.managers\<close> answers a
  request for a type id by reading its registry (\<open>self.registry[typeid]\<close>); for a type id
  that is not there the request fails, and no object is created.
\<close>

datatype lookup_error = NotRegistered

definition lookup :: "(string \<rightharpoonup> string \<times> proxytype) \<Rightarrow> string \<Rightarrow> lookup_error + string \<times> proxytype" where
  "lookup reg typeid = (case reg typeid of None \<Rightarrow> Inl NotRegistered | Some r \<Rightarrow> Inr r)"

text \<open>
  Lines 304--310:
  \<^verbatim>\<open>
  try:
      manager.start(mgr_init)
  except (OSError, EOFError) as e:
      if platform == 'win32' or not isinstance(address, str):
          raise OSError('Another instance is running with the same manager address. Stop that process or change your MANAGER_ADDRESS.') from e
      else:
          raise OSError('Another instance is running with the same socket. Stop that process or: rm {}'.format(address)) from e
  \<close>
\<close>

definition start_manager :: "string \<Rightarrow> env \<Rightarrow> val \<Rightarrow> val m" where
  "start_manager platform env address s =
     (case perform env ManagerStart s of
        (Inl e, s1) \<Rightarrow>
          if is_OSError e \<or> e = EOFError then
            (if platform = ''win32'' \<or> \<not> is_str address then
               (Inl (OSError ''Another instance is running with the same manager address. Stop that process or change your MANAGER_ADDRESS.''), s1)
             else
               (Inl (OSError (''Another instance is running with the same socket. Stop that process or: rm '' @ format_str address)), s1))
          else (Inl e, s1)
      | (Inr v, s1) \<Rightarrow> (Inr v, s1))"

text \<open>Lines 288--320 of \<open>main\<close>: everything before the launcher runs.\<close>

definition startup :: "string \<Rightarrow> conf \<Rightarrow> args \<Rightarrow> env \<Rightarrow> val m" where
  "startup platform c a env s =
     (case block
             ([perform env (GetLogger [])]
              @ (if status_bar a then
                   [perform env (ConfigureLogger (Some (join (DIRECTORY c) ''scan.log''))),
                    perform env (LogInfo (replicate 37 CHR ''-'')),
                    perform env (LogInfo ''Starting up!'')]
                 else [perform env (ConfigureLogger None)])
              @ [perform env (SetLevel (log_level a)),
                 register_resources c]) s of
        (Inl e, s1) \<Rightarrow> (Inl e, s1)
      | (Inr u, s1) \<Rightarrow>
          (case perform env GetAddress s1 of
             (Inl e, s2) \<Rightarrow> (Inl e, s2)
           | (Inr address, s2) \<Rightarrow>
               block
                 ([perform env (NewManager address (AUTHKEY c)),
                   start_manager platform env address,
                   perform env SetExceptionHandler,
                   perform env NewOverseer,
                   perform env (OverseerStart (status_bar a)),
                   perform env (Launch (bootstrap a) (pickle a)),
                   perform env (CreateTask ''launch''),
                   perform env (ActivateHashServer (HASH_KEY c))]
                  @ (if platform \<noteq> ''win32'' then
                       [perform env (AddSignalHandler ''SIGINT''),
                        perform env (AddSignalHandler ''SIGTERM'')]
                     else [])) s2))"

text \<open>
  Lines 321--326:
  \<^verbatim>\<open>
  try:
      LOOP.run_until_complete(launcher)
  except (KeyboardInterrupt, SystemExit):
      launcher.cancel()
  finally:
      cleanup(overseer, manager)
  \<close>
  \<open>parsed\<close> is the outcome of \<open>parse_args()\<close> (line 287).
\<close>

definition run_launcher :: "env \<Rightarrow> val m" where
  "run_launcher env s =
     (case perform env (RunUntilComplete Launcher) s of
        (Inl e, s1) \<Rightarrow>
          if e = KeyboardInterrupt \<or> e = SystemExit then perform env LauncherCancel s1
          else (Inl e, s1)
      | (Inr v, s1) \<Rightarrow> (Inr v, s1))"

definition main :: "string \<Rightarrow> conf \<Rightarrow> exn + args \<Rightarrow> env \<Rightarrow> state \<Rightarrow> ((exn + val) \<times> state) option" where
  "main platform c parsed env s =
     (case parsed of
        Inl e \<Rightarrow> Some (Inl e, s)
      | Inr a \<Rightarrow>
          (case startup platform c a env s of
             (Inl e, s1) \<Rightarrow> Some (Inl e, s1)
           | (Inr v, s1) \<Rightarrow>
               (case run_launcher env s1 of
                  (r, s2) \<Rightarrow>
                    (case cleanup env s2 of
                       None \<Rightarrow> None
                     | Some (Inl e, s3) \<Rightarrow> Some (Inl e, s3)
                     | Some (Inr u, s3) \<Rightarrow> Some (r, s3)))))"

section \<open>Predicates on the environment and on statements\<close>

text \<open>
  A call that returns whenever it is made; a call that raises \<open>e\<close> whenever it is made;
  a statement that only appends calls satisfying \<open>P\<close> to the trace.
\<close>

definition returns :: "env \<Rightarrow> action \<Rightarrow> bool" where
  "returns env a = (\<forall>k. \<exists>v. env a k = Inr v)"

definition raises :: "env \<Rightarrow> action \<Rightarrow> exn \<Rightarrow> bool" where
  "raises env a e = (\<forall>k. env a k = Inl e)"

definition adds :: "(action \<Rightarrow> bool) \<Rightarrow> val m \<Rightarrow> bool" where
  "adds P c = (\<forall>s r s'. c s = (r, s') \<longrightarrow> (\<exists>t. trace s' = trace s @ t \<and> list_all P t))"

section \<open>Lemmas about the wait loops and the queue operations\<close>

lemma wait_untimed_below:
  "wait_untimed m ws s = Some s' \<Longrightarrow> qsize (queue s') < m"
proof (induction m ws s rule: wait_untimed.induct)
  case (1 m ws s)
  show ?case
  proof (cases "qsize (queue s) \<ge> m")
    case False
    with "1.prems" show ?thesis by (subst (asm) wait_untimed.simps) auto
  next
    case True
    with "1.prems" obtain w ws' where ws: "ws = w # ws'"
      and rec: "wait_untimed m ws' (cv_wait None w s) = Some s'"
      by (subst (asm) wait_untimed.simps) (auto split: list.splits)
    from "1.IH"[OF True ws rec] show ?thesis .
  qed
qed

lemma wait_untimed_frame:
  "wait_untimed m ws s = Some s' \<Longrightarrow>
     \<exists>n \<le> length ws. items (queue s') = fold effect (take n ws) (items (queue s))
        \<and> maxsize (queue s') = maxsize (queue s)
        \<and> unfinished_tasks (queue s') = unfinished_tasks (queue s)"
proof (induction m ws s rule: wait_untimed.induct)
  case (1 m ws s)
  show ?case
  proof (cases "qsize (queue s) \<ge> m")
    case False
    with "1.prems" have "s' = s" by (subst (asm) wait_untimed.simps) simp
    then show ?thesis by (intro exI[of _ 0]) simp
  next
    case True
    with "1.prems" obtain w ws' where ws: "ws = w # ws'"
      and rec: "wait_untimed m ws' (cv_wait None w s) = Some s'"
      by (subst (asm) wait_untimed.simps) (auto split: list.splits)
    from "1.IH"[OF True ws rec] obtain n where n: "n \<le> length ws'"
      "items (queue s') = fold effect (take n ws') (items (queue (cv_wait None w s)))"
      "maxsize (queue s') = maxsize (queue (cv_wait None w s))"
      "unfinished_tasks (queue s') = unfinished_tasks (queue (cv_wait None w s))"
      by blast
    then show ?thesis using ws
      by (intro exI[of _ "Suc n"]) (simp add: cv_wait_def interfere_def)
  qed
qed


lemma wait_timed_frame:
  "wait_timed tm m e ws s = (r, s') \<Longrightarrow>
     \<exists>n \<le> length ws. items (queue s') = fold effect (take n ws) (items (queue s))
        \<and> maxsize (queue s') = maxsize (queue s)
        \<and> unfinished_tasks (queue s') = unfinished_tasks (queue s)"
proof (induction tm m e ws s rule: wait_timed.induct)
  case (1 tm m e ws s)
  show ?case
  proof (cases "qsize (queue s) \<ge> m \<and> \<not> e - clock s \<le> 0 \<and> \<not> tm < e - clock s")
    case False
    with "1.prems" have "queue s' = queue s"
      by (subst (asm) wait_timed.simps) (auto simp: Let_def split: if_splits)
    then show ?thesis by (intro exI[of _ 0]) simp
  next
    case True
    then have full: "qsize (queue s) \<ge> m" and pos: "\<not> e - clock s \<le> 0"
      and fits: "\<not> tm < e - clock s" by simp_all
    show ?thesis
    proof (cases ws)
      case Nil
      with full pos fits "1.prems"
      have run: "wait_timed tm m e [] (cv_wait (Some (e - clock s)) \<lparr>slept = e - clock s, effect = (\<lambda>xs. xs)\<rparr> s) = (r, s')"
        by (subst (asm) wait_timed.simps) (simp add: Let_def)
      from "1.IH"(1)[OF full refl pos fits Nil run]
      show ?thesis using Nil by (simp add: cv_wait_def interfere_def)
    next
      case (Cons w ws')
      with full pos fits "1.prems"
      have run: "wait_timed tm m e ws' (cv_wait (Some (e - clock s)) w s) = (r, s')"
        by (subst (asm) wait_timed.simps) (simp add: Let_def)
      from "1.IH"(2)[OF full refl pos fits Cons run] obtain n where n: "n \<le> length ws'"
        "items (queue s') = fold effect (take n ws') (items (queue (cv_wait (Some (e - clock s)) w s)))"
        "maxsize (queue s') = maxsize (queue (cv_wait (Some (e - clock s)) w s))"
        "unfinished_tasks (queue s') = unfinished_tasks (queue (cv_wait (Some (e - clock s)) w s))"
        by auto
      then show ?thesis using Cons
        by (intro exI[of _ "Suc n"]) (simp add: cv_wait_def interfere_def)
    qed
  qed
qed



lemma fold_effect_id:
  "\<forall>w \<in> set ws. effect w = (\<lambda>xs. xs) \<Longrightarrow> fold effect ws xs = xs"
  by (induction ws arbitrary: xs) simp_all

lemma run_ops_count:
  "run_ops ops q0 = Some q \<Longrightarrow>
     qsize q = qsize q0 + int (enqueues ops) - int (dequeues ops) \<and> maxsize q = maxsize q0"
proof (induction ops q0 rule: run_ops.induct)
  case (1 q)
  then show ?case by (simp add: enqueues_def dequeues_def)
next
  case (2 x ops q0)
  then obtain q1 where p: "put x q0 = Some q1" and r: "run_ops ops q1 = Some q"
    by (auto split: option.splits)
  from p have "qsize q1 = qsize q0 + 1" "maxsize q1 = maxsize q0"
    by (auto simp: put_def qsize_def split: if_splits)
  with "2.IH"[OF p r] show ?case by (simp add: enqueues_def dequeues_def)
next
  case (3 ops q0)
  then obtain y q1 where g: "get q0 = Some (y, q1)" and r: "run_ops ops q1 = Some q"
    by (auto split: option.splits)
  from g have "qsize q1 = qsize q0 - 1" "maxsize q1 = maxsize q0"
    by (auto simp: get_def qsize_def split: list.splits)
  with "3.IH"[OF g refl r] show ?case by (simp add: enqueues_def dequeues_def)
qed

section \<open>Lemmas about statements, traces and the loop of \<open>cleanup\<close>\<close>

lemma perform_returns:
  "returns env a \<Longrightarrow> \<exists>v. perform env a s = (Inr v, s\<lparr>trace := trace s @ [a]\<rparr>)"
  unfolding returns_def perform_def by (metis)

lemma block_perform_returns:
  "returns env a \<Longrightarrow> block (perform env a # cs) s = block cs (s\<lparr>trace := trace s @ [a]\<rparr>)"
  using perform_returns[of env a s] by auto


lemma adds_perform: "P a \<Longrightarrow> adds P (perform env a)"
  by (auto simp: adds_def perform_def)

lemma adds_mono: "adds P c \<Longrightarrow> (\<And>a. P a \<Longrightarrow> Q a) \<Longrightarrow> adds Q c"
  unfolding adds_def by (metis list.pred_mono_strong)

lemma adds_block: "list_all (adds P) cs \<Longrightarrow> adds P (block cs)"
proof (induction cs)
  case Nil
  show ?case by (simp add: adds_def)
next
  case (Cons c cs)
  then have c: "adds P c" and cs: "adds P (block cs)" by simp_all
  show ?case unfolding adds_def
  proof (intro allI impI)
    fix s r s'
    assume run: "block (c # cs) s = (r, s')"
    obtain r1 s1 where c1: "c s = (r1, s1)" by (cases "c s")
    from c c1 obtain t1 where t1: "trace s1 = trace s @ t1" "list_all P t1"
      unfolding adds_def by blast
    show "\<exists>t. trace s' = trace s @ t \<and> list_all P t"
    proof (cases r1)
      case (Inl e)
      with run c1 have "s' = s1" by simp
      with t1 show ?thesis by blast
    next
      case (Inr v)
      with run c1 have "block cs s1 = (r, s')" by simp
      with cs obtain t2 where "trace s' = trace s1 @ t2" "list_all P t2"
        unfolding adds_def by blast
      with t1 show ?thesis by (intro exI[of _ "t1 @ t2"]) simp
    qed
  qed
qed



lemma adds_dump_cells:
  "P ConfCacheCells \<Longrightarrow> P (DumpPickle ''cells'') \<Longrightarrow> adds P (dump_cells env)"
  by (auto simp: adds_def dump_cells_def perform_def split: sum.splits if_splits)

lemma adds_update_spawns:
  "P SpawnsUpdate \<Longrightarrow> (\<And>n. P (LogWarning ''A wild {} appeared while updating spawns during exit!'' n))
   \<Longrightarrow> adds P (update_spawns env)"
  by (auto simp: adds_def update_spawns_def perform_def split: sum.splits if_splits)

lemma adds_drain_step:
  "P QueueQsize \<Longrightarrow> (\<And>v. P (PrintPending v)) \<Longrightarrow> P (Sleep 0.5) \<Longrightarrow> adds P (drain_step env)"
  by (auto simp: adds_def drain_step_def perform_def split: sum.splits if_splits)


lemma adds_persist: "list_all (adds (\<lambda>a. a \<noteq> QueueEmpty)) (persist env)"
  unfolding persist_def
  by (simp add: adds_perform adds_dump_cells)

lemma adds_stop_writer: "list_all (adds (\<lambda>a. a \<noteq> QueueEmpty)) (stop_writer env)"
  unfolding stop_writer_def
  by (simp add: adds_perform adds_update_spawns)


lemma adds_prefix:
  "adds P c \<Longrightarrow> c s = (r, s') \<Longrightarrow> prefix (trace s) (trace s')"
  unfolding adds_def prefix_def by blast

lemma block_append:
  "block (cs @ ds) s =
     (case block cs s of (Inl e, s1) \<Rightarrow> (Inl e, s1) | (Inr v, s1) \<Rightarrow> block ds s1)"
  by (induction cs arbitrary: s) (auto split: prod.splits sum.splits)

lemma block_step_returns:
  "c s = (Inr v, s1) \<Longrightarrow> block (c # cs) s = block cs s1"
  by simp

lemma block_step_raises:
  "c s = (Inl e, s1) \<Longrightarrow> block (c # cs) s = (Inl e, s1)"
  by simp




lemma drain_queue_extends_snd:
  assumes "drain_queue env0 s0 = Some y0"
  shows "prefix (trace s0) (trace (snd y0))"
proof (rule drain_queue.raw_induct
         [where P = "\<lambda>env s y. prefix (trace s) (trace (snd y))", OF _ assms], goal_cases)
  case (1 drain env s y)
  define s1 where "s1 = s\<lparr>trace := trace s @ [QueueEmpty]\<rparr>"
  define o1 where "o1 = env QueueEmpty (count_list (trace s) QueueEmpty)"
  have p: "perform env QueueEmpty s = (o1, s1)"
    by (simp add: perform_def s1_def o1_def)
  have s1: "prefix (trace s) (trace s1)" by (simp add: s1_def)
  obtain r2 s2 where d: "drain_step env s1 = (r2, s2)" by (cases "drain_step env s1")
  have "adds (\<lambda>a. True) (drain_step env)" by (rule adds_drain_step) simp_all
  with d obtain t where "trace s2 = trace s1 @ t" unfolding adds_def by blast
  then have s2: "prefix (trace s1) (trace s2)" by simp
  have s12: "prefix (trace s) (trace s2)" using s1 s2 by (rule prefix_order.trans)
  have step: "(case o1 of
                 Inl e \<Rightarrow> Some (Inl e, s1)
               | Inr v \<Rightarrow>
                   if truthy v then Some (Inr VNone, s1)
                   else (case r2 of Inl e \<Rightarrow> Some (Inl e, s2) | Inr u \<Rightarrow> drain env s2))
              = Some y"
    using "1"(2) unfolding p d prod.case .
  show ?case
  proof (cases o1)
    case (Inl e)
    with step have "snd y = s1" by auto
    with s1 show ?thesis by simp
  next
    case (Inr v)
    show ?thesis
    proof (cases "truthy v")
      case True
      with step Inr have "snd y = s1" by auto
      with s1 show ?thesis by simp
    next
      case False
      show ?thesis
      proof (cases r2)
        case (Inl e)
        with step Inr False have "snd y = s2" by auto
        with s12 show ?thesis by simp
      next
        case r2: (Inr u)
        with step Inr False have "drain env s2 = Some y" by simp
        from "1"(1)[OF this] have "prefix (trace s2) (trace (snd y))" .
        with s12 show ?thesis by (rule prefix_order.trans)
      qed
    qed
  qed
qed

lemma drain_queue_extends:
  "drain_queue env s = Some (r, s') \<Longrightarrow> prefix (trace s) (trace s')"
  using drain_queue_extends_snd[of env s "(r, s')"] by simp




lemma block_set_running_returns:
  assumes "returns env (SetRunning b)"
  shows "block (set_running env b # cs) s =
       block cs (s\<lparr>running := b, trace := trace s @ [SetRunning b]\<rparr>)"
proof -
  from perform_returns[of env "SetRunning b" s] assms obtain v where
    "perform env (SetRunning b) s = (Inr v, s\<lparr>trace := trace s @ [SetRunning b]\<rparr>)" by blast
  then have "set_running env b s = (Inr v, s\<lparr>running := b, trace := trace s @ [SetRunning b]\<rparr>)"
    by (cases s) (simp add: set_running_def)
  then show ?thesis by simp
qed

lemma block_await_timeout:
  assumes "raises env (RunUntilComplete (WaitFor 40)) TimeoutError"
    and "returns env (Print ''Coroutine completion timed out, moving on.'')"
  shows "block (await_tasks env # cs) s =
           block cs (s\<lparr>trace := trace s @ [RunUntilComplete (WaitFor 40),
                                             Print ''Coroutine completion timed out, moving on.'']\<rparr>)"
proof -
  define s1 where "s1 = s\<lparr>trace := trace s @ [RunUntilComplete (WaitFor 40)]\<rparr>"
  have p: "perform env (RunUntilComplete (WaitFor 40)) s = (Inl TimeoutError, s1)"
    using assms(1) by (simp add: raises_def perform_def s1_def)
  from perform_returns[OF assms(2), of s1] obtain v where
    "perform env (Print ''Coroutine completion timed out, moving on.'') s1 =
       (Inr v, s1\<lparr>trace := trace s1 @ [Print ''Coroutine completion timed out, moving on.'']\<rparr>)"
    by blast
  with p have "await_tasks env s =
       (Inr v, s1\<lparr>trace := trace s1 @ [Print ''Coroutine completion timed out, moving on.'']\<rparr>)"
    by (simp add: await_tasks_def)
  then show ?thesis by (simp add: s1_def)
qed

lemma finish_tasks_timeout:
  assumes "\<forall>a \<in> set [SetRunning False,
                        Print ''Exiting, please wait until all tasks finish'',
                        GetLogger ''cleanup'',
                        Print ''Finishing tasks...'',
                        ExitProgress, CreateTask ''exit_progress'', AllTasks, Gather,
                        Print ''Coroutine completion timed out, moving on.'']. returns env a"
    and "raises env (RunUntilComplete (WaitFor 40)) TimeoutError"
  shows "block (finish_tasks env) s =
           (Inr VNone,
            s\<lparr>running := False,
              trace := trace s @
                [SetRunning False,
                 Print ''Exiting, please wait until all tasks finish'',
                 GetLogger ''cleanup'',
                 Print ''Finishing tasks...'',
                 ExitProgress, CreateTask ''exit_progress'', AllTasks, Gather,
                 RunUntilComplete (WaitFor 40),
                 Print ''Coroutine completion timed out, moving on.'']\<rparr>)"
  using assms
  by (simp add: finish_tasks_def block_set_running_returns block_perform_returns
        block_await_timeout del: block.simps(2))

lemma cleanup_try_after_finish:
  assumes "block (finish_tasks env) s = (Inr v, s1)" and "cleanup_try env s = (r0, st)"
  shows "prefix (trace s1 @ [RefreshDict]) (trace st)"
proof -
  define s2 where "s2 = s1\<lparr>trace := trace s1 @ [RefreshDict]\<rparr>"
  define rest where "rest = [perform env (Print ''Dumping pickles...''),
      perform env (DumpPickle ''accounts''), perform env FortCachePickle, dump_cells env]
      @ stop_writer env"
  have run: "block (perform env RefreshDict # rest) s1 = (r0, st)"
    using assms by (simp add: cleanup_try_def block_append persist_def rest_def del: block.simps)
  obtain o1 where p: "perform env RefreshDict s1 = (o1, s2)"
    by (simp add: perform_def s2_def)
  have "list_all (adds (\<lambda>a. a \<noteq> QueueEmpty)) rest"
    using adds_persist[of env] adds_stop_writer[of env] by (simp add: persist_def rest_def)
  then have rest: "adds (\<lambda>a. a \<noteq> QueueEmpty) (block rest)" by (rule adds_block)
  show ?thesis
  proof (cases o1)
    case (Inl e)
    with run p have "st = s2" by simp
    then show ?thesis by (simp add: s2_def)
  next
    case (Inr u)
    with run p have "block rest s2 = (r0, st)" by simp
    from adds_prefix[OF rest this] show ?thesis by (simp add: s2_def)
  qed
qed

lemma cleanup_extends:
  assumes "cleanup_try env s = (r0, st)" and "cleanup env s = Some (r, s')"
  shows "prefix (trace st) (trace s')"
proof -
  from assms(2) obtain rb sb ro where body: "cleanup_body env s = Some (rb, sb)"
    and rel: "release env sb = (ro, s')"
    by (auto simp: cleanup_def split: option.splits prod.splits sum.splits)
  have "adds (\<lambda>a. True) (release env)"
    unfolding release_def by (rule adds_block) (simp add: list_all_iff adds_perform)
  from adds_prefix[OF this rel] have 1: "prefix (trace sb) (trace s')" .
  have 2: "prefix (trace st) (trace sb)"
  proof (cases r0)
    case (Inl e)
    with assms(1) body show ?thesis by (simp add: cleanup_body_def)
  next
    case (Inr u)
    with assms(1) body have "drain_queue env st = Some (rb, sb)" by (simp add: cleanup_body_def)
    then show ?thesis by (rule drain_queue_extends)
  qed
  from 2 1 show ?thesis by (rule prefix_order.trans)
qed



lemma register_resources_result:
  "register_resources c s =
     (Inr VNone,
      s\<lparr>registry :=
           (if MAP_WORKERS c
            then (registry s)(''captcha_queue'' \<mapsto> (''get_captchas'', AutoProxy),
                              ''extra_queue'' \<mapsto> (''get_extras'', AutoProxy),
                              ''worker_dict'' \<mapsto> (''get_workers'', DictProxy))
            else (registry s)(''captcha_queue'' \<mapsto> (''get_captchas'', AutoProxy),
                              ''extra_queue'' \<mapsto> (''get_extras'', AutoProxy))),
        trace := trace s @
           (if MAP_WORKERS c
            then [Register ''captcha_queue'', Register ''extra_queue'', Register ''worker_dict'']
            else [Register ''captcha_queue'', Register ''extra_queue''])\<rparr>)"
  by (cases s) (simp add: register_resources_def register_def)

lemma start_manager_fails:
  assumes "raises env ManagerStart e" and "is_OSError e \<or> e = EOFError"
  shows "start_manager platform env address s =
           (Inl (OSError
                   (if platform = ''win32'' \<or> \<not> is_str address
                    then ''Another instance is running with the same manager address. Stop that process or change your MANAGER_ADDRESS.''
                    else ''Another instance is running with the same socket. Stop that process or: rm '' @ format_str address)),
            s\<lparr>trace := trace s @ [ManagerStart]\<rparr>)"
proof -
  have "perform env ManagerStart s = (Inl e, s\<lparr>trace := trace s @ [ManagerStart]\<rparr>)"
    using assms(1) by (simp add: raises_def perform_def)
  with assms(2) show ?thesis by (simp add: start_manager_def)
qed

lemma block_register_resources:
  "block (register_resources c # cs) s = block cs (snd (register_resources c s))"
  by (simp add: register_resources_result)

lemma startup_prelude:
  assumes "\<forall>b. b \<noteq> ManagerStart \<and> b \<noteq> GetAddress \<longrightarrow> returns env b"
  shows "\<exists>s1. block
             ([perform env (GetLogger [])]
              @ (if status_bar a then
                   [perform env (ConfigureLogger (Some (join (DIRECTORY c) ''scan.log''))),
                    perform env (LogInfo (replicate 37 CHR ''-'')),
                    perform env (LogInfo ''Starting up!'')]
                 else [perform env (ConfigureLogger None)])
              @ [perform env (SetLevel (log_level a)),
                 register_resources c]) s = (Inr VNone, s1)"
proof -
  have r: "\<And>b. b \<noteq> ManagerStart \<Longrightarrow> b \<noteq> GetAddress \<Longrightarrow> returns env b"
    using assms by blast
  show ?thesis
    by (cases "status_bar a")
       (simp_all add: block_perform_returns r block_register_resources del: block.simps(2))
qed

lemma startup_bind_failure:
  assumes "\<forall>b. b \<noteq> ManagerStart \<and> b \<noteq> GetAddress \<longrightarrow> returns env b"
    and "\<forall>k. env GetAddress k = Inr address"
    and "raises env ManagerStart e" and "is_OSError e \<or> e = EOFError"
  shows "\<exists>s'. startup platform c a env s =
           (Inl (OSError
                   (if platform = ''win32'' \<or> \<not> is_str address
                    then ''Another instance is running with the same manager address. Stop that process or change your MANAGER_ADDRESS.''
                    else ''Another instance is running with the same socket. Stop that process or: rm '' @ format_str address)),
            s') \<and> last (trace s') = ManagerStart"
proof -
  from startup_prelude[OF assms(1), of a c s] obtain s1 where
    pre: "block
             ([perform env (GetLogger [])]
              @ (if status_bar a then
                   [perform env (ConfigureLogger (Some (join (DIRECTORY c) ''scan.log''))),
                    perform env (LogInfo (replicate 37 CHR ''-'')),
                    perform env (LogInfo ''Starting up!'')]
                 else [perform env (ConfigureLogger None)])
              @ [perform env (SetLevel (log_level a)),
                 register_resources c]) s = (Inr VNone, s1)" by blast
  define s2 where "s2 = s1\<lparr>trace := trace s1 @ [GetAddress]\<rparr>"
  have ga: "perform env GetAddress s1 = (Inr address, s2)"
    using assms(2) by (simp add: perform_def s2_def)
  define s3 where "s3 = s2\<lparr>trace := trace s2 @ [NewManager address (AUTHKEY c)]\<rparr>"
  have nm: "returns env (NewManager address (AUTHKEY c))" using assms(1) by simp
  define cs where "cs = [perform env SetExceptionHandler,
                   perform env NewOverseer,
                   perform env (OverseerStart (status_bar a)),
                   perform env (Launch (bootstrap a) (pickle a)),
                   perform env (CreateTask ''launch''),
                   perform env (ActivateHashServer (HASH_KEY c))]
                  @ (if platform \<noteq> ''win32'' then
                       [perform env (AddSignalHandler ''SIGINT''),
                        perform env (AddSignalHandler ''SIGTERM'')]
                     else [])"
  have "startup platform c a env s =
      block (perform env (NewManager address (AUTHKEY c)) # start_manager platform env address # cs) s2"
    unfolding startup_def pre by (simp add: ga cs_def del: block.simps)
  also have "\<dots> = block (start_manager platform env address # cs) s3"
    unfolding s3_def by (rule block_perform_returns[OF nm])
  also have "\<dots> = (Inl (OSError
                   (if platform = ''win32'' \<or> \<not> is_str address
                    then ''Another instance is running with the same manager address. Stop that process or change your MANAGER_ADDRESS.''
                    else ''Another instance is running with the same socket. Stop that process or: rm '' @ format_str address)),
            s3\<lparr>trace := trace s3 @ [ManagerStart]\<rparr>)"
    by (rule block_step_raises) (rule start_manager_fails[OF assms(3,4)])
  finally show ?thesis by simp
qed





section \<open>The teardown sequence: release and persisting\<close>







section \<open>The wait-for-capacity operation\<close>

text \<open>
  C3. A call of \<open>full_wait\<close> with threshold \<open>m\<close> and no timeout that returns, returns
  the clock difference between its end and its start, and, when \<open>m\<close> is positive, returns
  with fewer than \<open>m\<close> items in the queue. With \<open>m \<le> 0\<close> it returns at once, without a
  call of \<open>wait\<close>, whatever the queue holds: the time that passed is the time it took to
  acquire the lock.
\<close>

theorem full_wait_untimed:
  "(\<forall>r s'. full_wait m None sch s = Some (r, s') \<longrightarrow>
       r = Inr (clock s' - clock s) \<and> (0 < m \<longrightarrow> qsize (queue s') < m))
   \<and> (m \<le> 0 \<longrightarrow>
        full_wait m None sch s =
          Some (Inr (slept (acquire sch)),
                (interfere (acquire sch) s)\<lparr>cv_log := cv_log s @ [NotifyNotEmpty]\<rparr>))"
proof (intro conjI allI impI)
  fix r s'
  assume ret: "full_wait m None sch s = Some (r, s')"
  show "r = Inr (clock s' - clock s)"
    using ret by (auto simp: full_wait_def Let_def split: if_splits option.splits sum.splits)
  assume "0 < m"
  with ret obtain s2 where w: "wait_untimed m (wakes sch) (interfere (acquire sch) s) = Some s2"
    and s': "s' = s2\<lparr>cv_log := cv_log s2 @ [NotifyNotEmpty]\<rparr>"
    by (auto simp: full_wait_def Let_def split: if_splits option.splits sum.splits)
  from wait_untimed_below[OF w] s' show "qsize (queue s') < m" by simp
next
  assume "m \<le> 0"
  then show "full_wait m None sch s =
          Some (Inr (slept (acquire sch)),
                (interfere (acquire sch) s)\<lparr>cv_log := cv_log s @ [NotifyNotEmpty]\<rparr>)"
    by (simp add: full_wait_def Let_def interfere_def)
qed


theorem full_wait_untimed_witness:
  "full_wait 1 None
      \<lparr>acquire = \<lparr>slept = 0, effect = (\<lambda>xs. xs)\<rparr>, wakes = [\<lparr>slept = 2, effect = tl\<rparr>], timeout_max = 9223372036\<rparr>
      \<lparr>queue = \<lparr>maxsize = 0, items = [7::nat], unfinished_tasks = 1\<rparr>, clock = 5, cv_log = []\<rparr> =
     Some (Inr 2, \<lparr>queue = \<lparr>maxsize = 0, items = [], unfinished_tasks = 1\<rparr>, clock = 7,
                    cv_log = [WaitNotFull None, NotifyNotEmpty]\<rparr>)
   \<and> qsize (queue \<lparr>queue = \<lparr>maxsize = 0, items = ([]::nat list), unfinished_tasks = 1\<rparr>,
                     clock = 7, cv_log = [WaitNotFull None, NotifyNotEmpty]\<rparr>) < 1
   \<and> full_wait 0 None \<lparr>acquire = \<lparr>slept = 0, effect = (\<lambda>xs. xs)\<rparr>, wakes = [], timeout_max = 9223372036\<rparr>
      \<lparr>queue = \<lparr>maxsize = 0, items = [7::nat], unfinished_tasks = 1\<rparr>, clock = 5, cv_log = []\<rparr> =
     Some (Inr 0, \<lparr>queue = \<lparr>maxsize = 0, items = [7], unfinished_tasks = 1\<rparr>, clock = 5,
                    cv_log = [NotifyNotEmpty]\<rparr>)"
proof -
  have run: "full_wait 1 None
      \<lparr>acquire = \<lparr>slept = 0, effect = (\<lambda>xs. xs)\<rparr>, wakes = [\<lparr>slept = 2, effect = tl\<rparr>], timeout_max = 9223372036\<rparr>
      \<lparr>queue = \<lparr>maxsize = 0, items = [7::nat], unfinished_tasks = 1\<rparr>, clock = 5, cv_log = []\<rparr> =
     Some (Inr 2, \<lparr>queue = \<lparr>maxsize = 0, items = [], unfinished_tasks = 1\<rparr>, clock = 7,
                    cv_log = [WaitNotFull None, NotifyNotEmpty]\<rparr>)"
    by (simp add: full_wait_def wait_untimed.simps cv_wait_def interfere_def qsize_def)
  from full_wait_untimed
         [of 1 "\<lparr>acquire = \<lparr>slept = 0, effect = (\<lambda>xs. xs)\<rparr>, wakes = [\<lparr>slept = 2, effect = tl\<rparr>], timeout_max = 9223372036\<rparr>"
             "\<lparr>queue = \<lparr>maxsize = 0, items = [7::nat], unfinished_tasks = 1\<rparr>, clock = 5, cv_log = []\<rparr>"]
       full_wait_untimed [of 0 "\<lparr>acquire = \<lparr>slept = 0, effect = (\<lambda>xs. xs)\<rparr>, wakes = [], timeout_max = 9223372036\<rparr>" "\<lparr>queue = \<lparr>maxsize = 0, items = [7::nat], unfinished_tasks = 1\<rparr>, clock = 5, cv_log = []\<rparr>"]
       run
  show ?thesis by (simp add: interfere_def)
qed

text \<open>
  C4. The claim that every negative timeout makes \<open>full_wait\<close> fail with \<open>ValueError\<close>
  does not hold for a threshold that is not positive: the test \<open>timeout < 0\<close> stands under
  \<open>if maxsize > 0\<close> (line 152), as it does in \<open>queue.Queue.put\<close>. With the default threshold
  \<open>0\<close> and timeout \<open>-1\<close> the call returns.
\<close>

theorem full_wait_negative_timeout_counterexample:
  "full_wait 0 (Some (- 1)) \<lparr>acquire = \<lparr>slept = 0, effect = (\<lambda>xs. xs)\<rparr>, wakes = [], timeout_max = 9223372036\<rparr>
      \<lparr>queue = \<lparr>maxsize = 0, items = [7::nat], unfinished_tasks = 1\<rparr>, clock = 5, cv_log = []\<rparr> =
     Some (Inr 0, \<lparr>queue = \<lparr>maxsize = 0, items = [7], unfinished_tasks = 1\<rparr>, clock = 5,
                    cv_log = [NotifyNotEmpty]\<rparr>)"
  by (simp add: full_wait_def interfere_def)

text \<open>
  C4, as amended. With a negative timeout, \<open>full_wait\<close> raises \<open>ValueError\<close> when the
  threshold is positive, whatever the queue holds and without a call of \<open>wait\<close> (the
  state changes only by what happened while the lock was acquired); when the threshold
  is zero or negative the timeout is not looked at and the call returns.
\<close>

theorem full_wait_negative_timeout:
  "t < 0 \<Longrightarrow>
     full_wait m (Some t) sch s =
       (if 0 < m then Some (Inl (ValueError timeout_msg), interfere (acquire sch) s)
        else Some (Inr (slept (acquire sch)),
                   (interfere (acquire sch) s)\<lparr>cv_log := cv_log s @ [NotifyNotEmpty]\<rparr>))"
  by (simp add: full_wait_def Let_def interfere_def)


theorem full_wait_negative_timeout_witness:
  "(- 1 :: real) < 0
   \<and> full_wait 5 (Some (- 1)) \<lparr>acquire = \<lparr>slept = 0, effect = (\<lambda>xs. xs)\<rparr>, wakes = [], timeout_max = 9223372036\<rparr>
      \<lparr>queue = \<lparr>maxsize = 0, items = [7::nat], unfinished_tasks = 1\<rparr>, clock = 5, cv_log = []\<rparr> =
       Some (Inl (ValueError timeout_msg), \<lparr>queue = \<lparr>maxsize = 0, items = [7::nat], unfinished_tasks = 1\<rparr>, clock = 5, cv_log = []\<rparr>)"
  using full_wait_negative_timeout [of "- 1" 5 "\<lparr>acquire = \<lparr>slept = 0, effect = (\<lambda>xs. xs)\<rparr>, wakes = [], timeout_max = 9223372036\<rparr>" "\<lparr>queue = \<lparr>maxsize = 0, items = [7::nat], unfinished_tasks = 1\<rparr>, clock = 5, cv_log = []\<rparr>"]
  by (simp add: interfere_def)



section \<open>The occupancy of the queue\<close>

text \<open>
  C6. Starting from the queue the program creates (\<open>CustomQueue()\<close>, no bound), after
  any finite sequence of enqueue and dequeue operations that has completed, the size the
  queue reports is the number of enqueues minus the number of dequeues; and a further
  enqueue does not wait: it appends the item, whatever the queue holds.
\<close>

theorem queue_occupancy:
  assumes "run_ops ops captcha_queue = Some q"
  shows "qsize q = int (enqueues ops) - int (dequeues ops)
         \<and> put x q = Some (q\<lparr>items := items q @ [x], unfinished_tasks := unfinished_tasks q + 1\<rparr>)"
proof -
  from run_ops_count[OF assms]
  have "qsize q = int (enqueues ops) - int (dequeues ops)" "maxsize q = 0"
    by (simp_all add: captcha_queue_def CustomQueue_def qsize_def)
  then show ?thesis by (simp add: put_def)
qed

theorem queue_occupancy_witness:
  "run_ops [Enqueue 1, Enqueue 2, Dequeue] captcha_queue =
     Some \<lparr>maxsize = 0, items = [2::nat], unfinished_tasks = 2\<rparr>
   \<and> qsize \<lparr>maxsize = 0, items = [2::nat], unfinished_tasks = 2\<rparr> =
       int (enqueues [Enqueue 1, Enqueue (2::nat), Dequeue])
       - int (dequeues [Enqueue 1, Enqueue (2::nat), Dequeue])
   \<and> put 9 \<lparr>maxsize = 0, items = [2::nat], unfinished_tasks = 2\<rparr> =
       Some \<lparr>maxsize = 0, items = [2, 9], unfinished_tasks = 3\<rparr>"
proof -
  have run: "run_ops [Enqueue 1, Enqueue 2, Dequeue] captcha_queue =
     Some \<lparr>maxsize = 0, items = [2::nat], unfinished_tasks = 2\<rparr>"
    by (simp add: captcha_queue_def CustomQueue_def put_def get_def qsize_def)
  from queue_occupancy [OF run, of 9] run show ?thesis by simp
qed

section \<open>Startup: the published resources and the bind failure\<close>

text \<open>
  C7. After the registrations of lines 297--301, starting from a registry without
  \<open>worker_dict\<close>, the registry has \<open>worker_dict\<close> exactly when \<open>MAP_WORKERS\<close> is set. When
  it is not set a lookup of \<open>worker_dict\<close> fails with \<open>NotRegistered\<close>, when it is set the
  lookup gives \<open>get_workers\<close> with the dictionary proxy; the two queues are registered in
  both cases.
\<close>

theorem worker_dict_registration:
  assumes "registry s ''worker_dict'' = None"
  shows "(registry (snd (register_resources c s)) ''worker_dict'' \<noteq> None \<longleftrightarrow> MAP_WORKERS c)
       \<and> (\<not> MAP_WORKERS c \<longrightarrow>
            lookup (registry (snd (register_resources c s))) ''worker_dict'' = Inl NotRegistered)
       \<and> (MAP_WORKERS c \<longrightarrow>
            lookup (registry (snd (register_resources c s))) ''worker_dict'' =
              Inr (''get_workers'', DictProxy))
       \<and> lookup (registry (snd (register_resources c s))) ''captcha_queue'' =
            Inr (''get_captchas'', AutoProxy)
       \<and> lookup (registry (snd (register_resources c s))) ''extra_queue'' =
            Inr (''get_extras'', AutoProxy)"
  using assms by (simp add: register_resources_result lookup_def)

theorem worker_dict_registration_witness:
  "lookup (registry (snd (register_resources
             \<lparr>MAP_WORKERS = False, DIRECTORY = [], AUTHKEY = VNone, HASH_KEY = VNone\<rparr>
             \<lparr>running = True, registry = Map.empty, trace = []\<rparr>))) ''worker_dict'' =
     Inl NotRegistered
   \<and> lookup (registry (snd (register_resources
             \<lparr>MAP_WORKERS = True, DIRECTORY = [], AUTHKEY = VNone, HASH_KEY = VNone\<rparr>
             \<lparr>running = True, registry = Map.empty, trace = []\<rparr>))) ''worker_dict'' =
     Inr (''get_workers'', DictProxy)"
  using worker_dict_registration
          [of "\<lparr>running = True, registry = Map.empty, trace = []\<rparr>"
              "\<lparr>MAP_WORKERS = False, DIRECTORY = [], AUTHKEY = VNone, HASH_KEY = VNone\<rparr>"]
        worker_dict_registration
          [of "\<lparr>running = True, registry = Map.empty, trace = []\<rparr>"
              "\<lparr>MAP_WORKERS = True, DIRECTORY = [], AUTHKEY = VNone, HASH_KEY = VNone\<rparr>"]
  by simp

text \<open>
  C8. When \<open>manager.start\<close> raises \<open>OSError\<close> or \<open>EOFError\<close> (and the calls of \<open>main\<close>
  before it return), \<open>main\<close> raises \<open>OSError\<close> and ends there: the failed start is its
  last call, no overseer is created and \<open>cleanup\<close> is not run. The message is the one
  about the manager address (stop the other process or change \<open>MANAGER_ADDRESS\<close>) when
  the address is not a string, or on \<open>win32\<close>; when the address is a string \<open>p\<close>, the path
  of a socket, on another platform, it is the one about the socket, ending in
  \<open>rm p\<close>. The two messages differ.
\<close>

theorem bind_failure_is_fatal:
  assumes "\<forall>b. b \<noteq> ManagerStart \<and> b \<noteq> GetAddress \<longrightarrow> returns env b"
    and "\<forall>k. env GetAddress k = Inr address"
    and "raises env ManagerStart e" and "is_OSError e \<or> e = EOFError"
  shows "(platform = ''win32'' \<or> \<not> is_str address \<longrightarrow>
            (\<exists>s'. main platform c (Inr a) env s =
                    Some (Inl (OSError ''Another instance is running with the same manager address. Stop that process or change your MANAGER_ADDRESS.''), s')
                  \<and> last (trace s') = ManagerStart))
       \<and> (platform \<noteq> ''win32'' \<and> address = VStr p \<longrightarrow>
            (\<exists>s'. main platform c (Inr a) env s =
                    Some (Inl (OSError (''Another instance is running with the same socket. Stop that process or: rm '' @ p)), s')
                  \<and> last (trace s') = ManagerStart))
       \<and> ''Another instance is running with the same manager address. Stop that process or change your MANAGER_ADDRESS.''
            \<noteq> ''Another instance is running with the same socket. Stop that process or: rm '' @ p"
proof -
  from startup_bind_failure[OF assms, of platform c a s] obtain s' where
    st: "startup platform c a env s =
           (Inl (OSError
                   (if platform = ''win32'' \<or> \<not> is_str address
                    then ''Another instance is running with the same manager address. Stop that process or change your MANAGER_ADDRESS.''
                    else ''Another instance is running with the same socket. Stop that process or: rm '' @ format_str address)),
            s')" and l: "last (trace s') = ManagerStart" by blast
  have m: "main platform c (Inr a) env s =
           Some (Inl (OSError
                   (if platform = ''win32'' \<or> \<not> is_str address
                    then ''Another instance is running with the same manager address. Stop that process or change your MANAGER_ADDRESS.''
                    else ''Another instance is running with the same socket. Stop that process or: rm '' @ format_str address)),
            s')"
  proof -
    have "main platform c (Inr a) env s =
        (case startup platform c a env s of
           (Inl e, s1) \<Rightarrow> Some (Inl e, s1)
         | (Inr v, s1) \<Rightarrow>
             (case run_launcher env s1 of
                (r, s2) \<Rightarrow>
                  (case cleanup env s2 of
                     None \<Rightarrow> None
                   | Some (Inl e, s3) \<Rightarrow> Some (Inl e, s3)
                   | Some (Inr u, s3) \<Rightarrow> Some (r, s3))))"
      by (simp add: main_def)
    then show ?thesis by (simp only: st prod.case sum.case)
  qed
  have 1: "platform = ''win32'' \<or> \<not> is_str address \<longrightarrow>
            (\<exists>s'. main platform c (Inr a) env s =
                    Some (Inl (OSError ''Another instance is running with the same manager address. Stop that process or change your MANAGER_ADDRESS.''), s')
                  \<and> last (trace s') = ManagerStart)"
    using m l by auto
  have 2: "platform \<noteq> ''win32'' \<and> address = VStr p \<longrightarrow>
            (\<exists>s'. main platform c (Inr a) env s =
                    Some (Inl (OSError (''Another instance is running with the same socket. Stop that process or: rm '' @ p)), s')
                  \<and> last (trace s') = ManagerStart)"
    using m l by auto
  have 3: "''Another instance is running with the same manager address. Stop that process or change your MANAGER_ADDRESS.''
            \<noteq> ''Another instance is running with the same socket. Stop that process or: rm '' @ p"
    by simp
  from 1 2 3 show ?thesis by blast
qed

theorem bind_failure_is_fatal_witness:
  "(\<exists>s'. main ''linux''
            \<lparr>MAP_WORKERS = True, DIRECTORY = [], AUTHKEY = VStr ''m3wtw0'', HASH_KEY = VNone\<rparr>
            (Inr \<lparr>status_bar = True, log_level = VStr ''WARNING'', bootstrap = False, pickle = True\<rparr>)
            (\<lambda>b k. if b = ManagerStart then Inl (OSError ''Address already in use'')
                    else if b = GetAddress then Inr (VStr ''/tmp/monocle.sock'')
                    else Inr VNone)
            \<lparr>running = True, registry = Map.empty, trace = []\<rparr> =
          Some (Inl (OSError (''Another instance is running with the same socket. Stop that process or: rm '' @ ''/tmp/monocle.sock'')), s')
        \<and> last (trace s') = ManagerStart)
   \<and> (\<exists>s'. main ''linux''
            \<lparr>MAP_WORKERS = True, DIRECTORY = [], AUTHKEY = VStr ''m3wtw0'', HASH_KEY = VNone\<rparr>
            (Inr \<lparr>status_bar = True, log_level = VStr ''WARNING'', bootstrap = False, pickle = True\<rparr>)
            (\<lambda>b k. if b = ManagerStart then Inl (OSError ''Address already in use'')
                    else if b = GetAddress then Inr (VTuple [VStr ''127.0.0.1'', VInt 5001])
                    else Inr VNone)
            \<lparr>running = True, registry = Map.empty, trace = []\<rparr> =
          Some (Inl (OSError ''Another instance is running with the same manager address. Stop that process or change your MANAGER_ADDRESS.''), s')
        \<and> last (trace s') = ManagerStart)"
proof -
  let ?sock = "\<lambda>b k. if b = ManagerStart then Inl (OSError ''Address already in use'')
                    else if b = GetAddress then Inr (VStr ''/tmp/monocle.sock'')
                    else Inr VNone"
  let ?net = "\<lambda>b k. if b = ManagerStart then Inl (OSError ''Address already in use'')
                    else if b = GetAddress then Inr (VTuple [VStr ''127.0.0.1'', VInt 5001])
                    else Inr VNone"
  have s1: "\<forall>b. b \<noteq> ManagerStart \<and> b \<noteq> GetAddress \<longrightarrow> returns ?sock b"
    and s2: "\<forall>k. ?sock GetAddress k = Inr (VStr ''/tmp/monocle.sock'')"
    and s3: "raises ?sock ManagerStart (OSError ''Address already in use'')"
    by (simp_all add: returns_def raises_def)
  have n1: "\<forall>b. b \<noteq> ManagerStart \<and> b \<noteq> GetAddress \<longrightarrow> returns ?net b"
    and n2: "\<forall>k. ?net GetAddress k = Inr (VTuple [VStr ''127.0.0.1'', VInt 5001])"
    and n3: "raises ?net ManagerStart (OSError ''Address already in use'')"
    by (simp_all add: returns_def raises_def)
  have k: "is_OSError (OSError ''Address already in use'') \<or> OSError ''Address already in use'' = EOFError"
    by simp
  from bind_failure_is_fatal[OF s1 s2 s3 k, where platform = "''linux''" and p = "''/tmp/monocle.sock''"]
       bind_failure_is_fatal[OF n1 n2 n3 k, where platform = "''linux''"]
  show ?thesis by simp
qed

section \<open>The teardown sequence: awaiting the tasks\<close>

text \<open>
  C9. \<open>cleanup\<close> collects the scheduled tasks (\<open>all_tasks\<close>, \<open>gather\<close>) and awaits them
  with \<open>asyncio.wait_for(gathered, 40)\<close>. When that call raises \<open>TimeoutError\<close> (and the
  calls before it, and the \<open>print\<close> of the handler, return), the only thing done about it
  is the message \<open>Coroutine completion timed out, moving on.\<close>: the first part of the
  \<open>try\<close> block ends normally, no exception is logged, and in every run of \<open>cleanup\<close> that
  ends the next call is \<open>overseer.refresh_dict()\<close>.
\<close>

theorem await_timeout_proceeds:
  assumes "\<forall>a \<in> set [SetRunning False,
                        Print ''Exiting, please wait until all tasks finish'',
                        GetLogger ''cleanup'',
                        Print ''Finishing tasks...'',
                        ExitProgress, CreateTask ''exit_progress'', AllTasks, Gather,
                        Print ''Coroutine completion timed out, moving on.'']. returns env a"
    and "raises env (RunUntilComplete (WaitFor 40)) TimeoutError"
  shows "block (finish_tasks env) s =
           (Inr VNone,
            s\<lparr>running := False,
              trace := trace s @
                [SetRunning False,
                 Print ''Exiting, please wait until all tasks finish'',
                 GetLogger ''cleanup'',
                 Print ''Finishing tasks...'',
                 ExitProgress, CreateTask ''exit_progress'', AllTasks, Gather,
                 RunUntilComplete (WaitFor 40),
                 Print ''Coroutine completion timed out, moving on.'']\<rparr>)
       \<and> (\<forall>r s'. cleanup env s = Some (r, s') \<longrightarrow>
             prefix (trace s @
                [SetRunning False,
                 Print ''Exiting, please wait until all tasks finish'',
                 GetLogger ''cleanup'',
                 Print ''Finishing tasks...'',
                 ExitProgress, CreateTask ''exit_progress'', AllTasks, Gather,
                 RunUntilComplete (WaitFor 40),
                 Print ''Coroutine completion timed out, moving on.'',
                 RefreshDict]) (trace s'))"
proof (intro conjI allI impI)
  show fin: "block (finish_tasks env) s =
           (Inr VNone,
            s\<lparr>running := False,
              trace := trace s @
                [SetRunning False,
                 Print ''Exiting, please wait until all tasks finish'',
                 GetLogger ''cleanup'',
                 Print ''Finishing tasks...'',
                 ExitProgress, CreateTask ''exit_progress'', AllTasks, Gather,
                 RunUntilComplete (WaitFor 40),
                 Print ''Coroutine completion timed out, moving on.'']\<rparr>)"
    using assms by (rule finish_tasks_timeout)
  fix r s'
  assume c: "cleanup env s = Some (r, s')"
  obtain r0 st where t: "cleanup_try env s = (r0, st)" by (cases "cleanup_try env s")
  from cleanup_try_after_finish[OF fin t] cleanup_extends[OF t c]
  show "prefix (trace s @
                [SetRunning False,
                 Print ''Exiting, please wait until all tasks finish'',
                 GetLogger ''cleanup'',
                 Print ''Finishing tasks...'',
                 ExitProgress, CreateTask ''exit_progress'', AllTasks, Gather,
                 RunUntilComplete (WaitFor 40),
                 Print ''Coroutine completion timed out, moving on.'',
                 RefreshDict]) (trace s')"
    by (simp add: prefix_order.trans)
qed

theorem await_timeout_proceeds_witness:
  "block (finish_tasks
            (\<lambda>a k. if a = RunUntilComplete (WaitFor 40) then Inl TimeoutError
                    else Inr VNone))
     \<lparr>running = True, registry = Map.empty, trace = []\<rparr> =
   (Inr VNone,
    \<lparr>running = False, registry = Map.empty,
     trace = [SetRunning False,
              Print ''Exiting, please wait until all tasks finish'',
              GetLogger ''cleanup'',
              Print ''Finishing tasks...'',
              ExitProgress, CreateTask ''exit_progress'', AllTasks, Gather,
              RunUntilComplete (WaitFor 40),
              Print ''Coroutine completion timed out, moving on.'']\<rparr>)"
proof -
  let ?env = "\<lambda>a k. if a = RunUntilComplete (WaitFor 40) then Inl TimeoutError else Inr VNone"
  have r: "\<forall>a \<in> set [SetRunning False,
                        Print ''Exiting, please wait until all tasks finish'',
                        GetLogger ''cleanup'',
                        Print ''Finishing tasks...'',
                        ExitProgress, CreateTask ''exit_progress'', AllTasks, Gather,
                        Print ''Coroutine completion timed out, moving on.'']. returns ?env a"
    by (simp add: returns_def)
  have t: "raises ?env (RunUntilComplete (WaitFor 40)) TimeoutError"
    by (simp add: raises_def)
  from await_timeout_proceeds[OF r t, of "\<lparr>running = True, registry = Map.empty, trace = []\<rparr>"]
  show ?thesis by simp
qed

section \<open>The frame of the wait-for-capacity operation\<close>

text \<open>
  C10. \<open>full_wait\<close> does not change the queue itself. Whenever it comes back, returning
  or raising, the deque holds what the other threads made of it while the caller was
  blocked (the effects of the lock acquisition and of the waits that completed, in
  order), and \<open>maxsize\<close> and \<open>unfinished_tasks\<close> are as before. If no other thread changes
  the deque, the queue after the call is the queue before it.
\<close>

theorem full_wait_frame:
  assumes "full_wait m timeout sch s = Some (r, s')"
  shows "(\<exists>n \<le> length (wakes sch).
            items (queue s') =
              fold effect (take n (wakes sch)) (effect (acquire sch) (items (queue s))))
         \<and> maxsize (queue s') = maxsize (queue s)
         \<and> unfinished_tasks (queue s') = unfinished_tasks (queue s)
         \<and> ((\<forall>w \<in> set (acquire sch # wakes sch). effect w = (\<lambda>xs. xs)) \<longrightarrow> queue s' = queue s)"
proof -
  define s1 where "s1 = interfere (acquire sch) s"
  have s1: "items (queue s1) = effect (acquire sch) (items (queue s))"
    "maxsize (queue s1) = maxsize (queue s)"
    "unfinished_tasks (queue s1) = unfinished_tasks (queue s)"
    by (simp_all add: s1_def interfere_def)
  have main: "\<exists>n \<le> length (wakes sch).
       items (queue s') = fold effect (take n (wakes sch)) (items (queue s1))
       \<and> maxsize (queue s') = maxsize (queue s1)
       \<and> unfinished_tasks (queue s') = unfinished_tasks (queue s1)"
  proof (cases "0 < m")
    case False
    with assms have "queue s' = queue s1"
      by (auto simp: full_wait_def Let_def s1_def)
    then show ?thesis by (intro exI[of _ 0]) simp
  next
    case True
    show ?thesis
    proof (cases timeout)
      case None
      with True assms obtain s2 where w: "wait_untimed m (wakes sch) s1 = Some s2"
        and s': "queue s' = queue s2"
        by (auto simp: full_wait_def Let_def s1_def split: option.splits sum.splits)
      from wait_untimed_frame[OF w] s' show ?thesis by simp
    next
      case (Some t)
      show ?thesis
      proof (cases "t < 0")
        case True
        with \<open>0 < m\<close> Some assms have "queue s' = queue s1"
          by (auto simp: full_wait_def Let_def s1_def)
        then show ?thesis by (intro exI[of _ 0]) simp
      next
        case False
        obtain r0 s2 where wt: "wait_timed (timeout_max sch) m (clock s1 + t) (wakes sch) s1 = (r0, s2)"
          by (cases "wait_timed (timeout_max sch) m (clock s1 + t) (wakes sch) s1")
        with False \<open>0 < m\<close> Some assms have "queue s' = queue s2"
          by (auto simp: full_wait_def Let_def s1_def split: sum.splits)
        with wait_timed_frame[OF wt] show ?thesis by simp
      qed
    qed
  qed
  then obtain n where n: "n \<le> length (wakes sch)"
    "items (queue s') = fold effect (take n (wakes sch)) (items (queue s1))"
    "maxsize (queue s') = maxsize (queue s1)"
    "unfinished_tasks (queue s') = unfinished_tasks (queue s1)" by blast
  have quiet: "queue s' = queue s"
    if q: "\<forall>w \<in> set (acquire sch # wakes sch). effect w = (\<lambda>xs. xs)"
  proof -
    have "\<forall>w \<in> set (take n (wakes sch)). effect w = (\<lambda>xs. xs)"
      using q by (auto dest: in_set_takeD)
    from fold_effect_id[OF this] n s1 q have "items (queue s') = items (queue s)" by simp
    with n s1 show ?thesis by (intro queue.equality) simp_all
  qed
  from n s1 quiet show ?thesis by auto
qed


theorem full_wait_frame_witness:
  "full_wait 1 (Some (1 / 10)) \<lparr>acquire = \<lparr>slept = 0, effect = (\<lambda>xs. xs)\<rparr>, wakes = [], timeout_max = 9223372036\<rparr>
      \<lparr>queue = \<lparr>maxsize = 0, items = [7::nat], unfinished_tasks = 1\<rparr>, clock = 5, cv_log = []\<rparr> =
       Some (Inl Full, \<lparr>queue = \<lparr>maxsize = 0, items = [7], unfinished_tasks = 1\<rparr>,
                         clock = 5 + 1 / 10, cv_log = [WaitNotFull (Some (1 / 10))]\<rparr>)
   \<and> queue \<lparr>queue = \<lparr>maxsize = 0, items = [7::nat], unfinished_tasks = 1\<rparr>,
              clock = 5 + 1 / 10, cv_log = [WaitNotFull (Some (1 / 10))]\<rparr> =
     queue \<lparr>queue = \<lparr>maxsize = 0, items = [7::nat], unfinished_tasks = 1\<rparr>, clock = 5, cv_log = []\<rparr>"
proof -
  have run: "full_wait 1 (Some (1 / 10)) \<lparr>acquire = \<lparr>slept = 0, effect = (\<lambda>xs. xs)\<rparr>, wakes = [], timeout_max = 9223372036\<rparr>
      \<lparr>queue = \<lparr>maxsize = 0, items = [7::nat], unfinished_tasks = 1\<rparr>, clock = 5, cv_log = []\<rparr> =
       Some (Inl Full, \<lparr>queue = \<lparr>maxsize = 0, items = [7], unfinished_tasks = 1\<rparr>,
                         clock = 5 + 1 / 10, cv_log = [WaitNotFull (Some (1 / 10))]\<rparr>)"
    by (simp add: full_wait_def wait_timed.simps cv_wait_def interfere_def qsize_def Let_def)
  from full_wait_frame [OF run] run show ?thesis by simp
qed

end
